theory Spec2Isabelle
  imports Main
begin

section \<open>The JavaScript values the program works on\<close>

subsection \<open>Plain objects used as dictionaries\<close>

text \<open>
  \<^verbatim>\<open>Record<string, string>\<close> values are plain objects created by \<^verbatim>\<open>{}\<close>. An object
  is modelled by the list of its own enumerable string-valued properties, in the order
  in which \<^verbatim>\<open>Object.keys\<close> and \<^verbatim>\<open>Object.entries\<close> list them: the keys that are array
  indices (canonical numeric strings below \<open>2^32 - 1\<close>) first, in ascending numeric order,
  then every other key in the order of its creation.
\<close>

type_synonym obj = "(string \<times> string) list"

definition is_digit :: "char \<Rightarrow> bool" where
  "is_digit c = (48 \<le> (of_char c :: nat) \<and> (of_char c :: nat) \<le> 57)"

definition digits_value :: "string \<Rightarrow> nat" where
  "digits_value s = foldl (\<lambda>n c. 10 * n + ((of_char c :: nat) - 48)) 0 s"

fun no_leading_zero :: "string \<Rightarrow> bool" where
  "no_leading_zero [] = False"
| "no_leading_zero [c] = True"
| "no_leading_zero (c # d # s) = (c \<noteq> CHR ''0'')"

definition is_array_index :: "string \<Rightarrow> bool" where
  "is_array_index k =
     (no_leading_zero k \<and> list_all is_digit k \<and> digits_value k < 4294967295)"

definition Object_keys :: "obj \<Rightarrow> string list" where
  "Object_keys ob = map fst ob"

definition hasOwnProperty :: "obj \<Rightarrow> string \<Rightarrow> bool" where
  "hasOwnProperty ob k = (k \<in> set (Object_keys ob))"

text \<open>
  \<^verbatim>\<open>ob[k]\<close> read as a string: the own property when there is one. Every other outcome of
  the read (\<^verbatim>\<open>undefined\<close>, or a member inherited from \<^verbatim>\<open>Object.prototype\<close>, which is a
  function or an object) is not a string and is \<open>None\<close> here.
\<close>

definition obj_get :: "obj \<Rightarrow> string \<Rightarrow> string option" where
  "obj_get ob k = map_of ob k"

fun obj_overwrite :: "string \<Rightarrow> string \<Rightarrow> obj \<Rightarrow> obj" where
  "obj_overwrite k v [] = []"
| "obj_overwrite k v (p # ps) =
     (if fst p = k then (k, v) # ps else p # obj_overwrite k v ps)"

fun obj_insert_index :: "string \<Rightarrow> string \<Rightarrow> obj \<Rightarrow> obj" where
  "obj_insert_index k v [] = [(k, v)]"
| "obj_insert_index k v (p # ps) =
     (if is_array_index (fst p) \<and> digits_value (fst p) < digits_value k
      then p # obj_insert_index k v ps
      else (k, v) # p # ps)"

text \<open>
  \<^verbatim>\<open>ob[k] = v\<close> on a plain object. The key \<^verbatim>\<open>__proto__\<close> is an accessor inherited from
  \<^verbatim>\<open>Object.prototype\<close> whose setter ignores a value that is not an object, so assigning a
  string to it creates no property. An existing own property keeps its place; a new array
  index goes to its numeric place among the indices; any other new key goes last.
\<close>

definition obj_set :: "string \<Rightarrow> string \<Rightarrow> obj \<Rightarrow> obj" where
  "obj_set k v ob =
     (if k = ''__proto__'' then ob
      else if hasOwnProperty ob k then obj_overwrite k v ob
      else if is_array_index k then obj_insert_index k v ob
      else ob @ [(k, v)])"

subsection \<open>Array.prototype.sort with a comparator\<close>

text \<open>
  \<^verbatim>\<open>entries.sort(([a], [b]) => a.localeCompare(b))\<close>: the sort is stable, and for a
  consistent comparator its result is the one stable arrangement, which insertion from the
  right computes. The comparator is that of the platform.
\<close>

fun insert_entry :: "(string \<Rightarrow> string \<Rightarrow> int) \<Rightarrow> string \<times> string \<Rightarrow> (string \<times> string) list
    \<Rightarrow> (string \<times> string) list" where
  "insert_entry cmp e [] = [e]"
| "insert_entry cmp e (p # ps) =
     (if cmp (fst e) (fst p) \<le> 0 then e # p # ps else p # insert_entry cmp e ps)"

definition sort_entries :: "(string \<Rightarrow> string \<Rightarrow> int) \<Rightarrow> (string \<times> string) list
    \<Rightarrow> (string \<times> string) list" where
  "sort_entries cmp es = foldr (insert_entry cmp) es []"

section \<open>parseUrl\<close>

text \<open>
  The platform the function runs on: the analytics handle of \<^verbatim>\<open>main.tsx\<close> (\<^verbatim>\<open>null\<close> when
  analytics is disabled) with what \<^verbatim>\<open>logEvent\<close> does on it, the \<^verbatim>\<open>URL\<close> constructor, which
  throws on a string that is not an absolute URL, and \<^verbatim>\<open>String.prototype.localeCompare\<close>.
\<close>

datatype exn = TypeError | SinkError

record URL_obj =
  url_protocol :: string
  url_host :: string
  url_pathname :: string
  url_searchParams :: "(string \<times> string) list"

record platform =
  analytics :: "(string \<Rightarrow> exn + unit) option"
  URL_new :: "string \<Rightarrow> exn + URL_obj"
  localeCompare :: "string \<Rightarrow> string \<Rightarrow> int"

record ParsedURL =
  protocol :: string
  host :: string
  path :: string
  params :: obj

text \<open>\<^verbatim>\<open>s.replace(":", "")\<close>: the first colon is removed.\<close>

fun replace_colon :: "string \<Rightarrow> string" where
  "replace_colon [] = []"
| "replace_colon (c # s) = (if c = CHR '':'' then s else c # replace_colon s)"

definition build_params :: "(string \<times> string) list \<Rightarrow> obj" where
  "build_params es = foldl (\<lambda>ob e. obj_set (fst e) (snd e) ob) [] es"

text \<open>\<^verbatim>\<open>if (analytics) { logEvent(analytics, "parse_url", { url: url }); }\<close>\<close>

definition log_parse_url :: "platform \<Rightarrow> string \<Rightarrow> exn + unit" where
  "log_parse_url P url = (case analytics P of None \<Rightarrow> Inr () | Some logEvent \<Rightarrow> logEvent url)"

text \<open>The body of the \<^verbatim>\<open>try\<close> block: \<open>Inl\<close> is an exception thrown inside it.\<close>

definition parseUrl_try :: "platform \<Rightarrow> string \<Rightarrow> exn + ParsedURL" where
  "parseUrl_try P url =
     (case log_parse_url P url of
        Inl e \<Rightarrow> Inl e
      | Inr _ \<Rightarrow>
          (case URL_new P url of
             Inl e \<Rightarrow> Inl e
           | Inr u \<Rightarrow>
               Inr \<lparr>protocol = replace_colon (url_protocol u),
                    host = url_host u,
                    path = url_pathname u,
                    params = build_params (sort_entries (localeCompare P) (url_searchParams u))\<rparr>))"

text \<open>The \<^verbatim>\<open>catch\<close> turns every exception of the body into \<^verbatim>\<open>null\<close>.\<close>

definition parseUrl :: "platform \<Rightarrow> string \<Rightarrow> ParsedURL option" where
  "parseUrl P url = (case parseUrl_try P url of Inl e \<Rightarrow> None | Inr p \<Rightarrow> Some p)"


section \<open>Comparing the parameters of the parsed URLs\<close>

definition paramsEqual :: "obj \<Rightarrow> obj \<Rightarrow> bool" where
  "paramsEqual a b =
     (let aKeys = Object_keys a; bKeys = Object_keys b
      in if length aKeys \<noteq> length bKeys then False
         else list_all (\<lambda>k. obj_get b k = obj_get a k) aKeys)"

text \<open>\<^verbatim>\<open>parsed.filter(Boolean).map((p) => p!.params)\<close>\<close>

fun allParams :: "ParsedURL option list \<Rightarrow> obj list" where
  "allParams [] = []"
| "allParams (None # parsed) = allParams parsed"
| "allParams (Some p # parsed) = params p # allParams parsed"

definition canCompare :: "obj list \<Rightarrow> bool" where
  "canCompare ps = (length ps > 1)"

definition allSame :: "obj list \<Rightarrow> bool" where
  "allSame ps = (canCompare ps \<and> list_all (\<lambda>p. paramsEqual p (ps ! 0)) ps)"

text \<open>
  A \<^verbatim>\<open>Set<string>\<close> is the list of its members in insertion order, without repetition.
\<close>

definition Set_add :: "string \<Rightarrow> string list \<Rightarrow> string list" where
  "Set_add x s = (if x \<in> set s then s else s @ [x])"

record ParamDiff =
  missing :: "string list"
  valueChanged :: "string list"

definition collect_keys :: "obj list \<Rightarrow> string list" where
  "collect_keys ps =
     foldl (\<lambda>allKeys ob. foldl (\<lambda>s key. Set_add key s) allKeys (Object_keys ob)) [] ps"

definition classify_key :: "obj list \<Rightarrow> ParamDiff \<Rightarrow> string \<Rightarrow> ParamDiff" where
  "classify_key ps acc key =
     (let keyExistsInAll = list_all (\<lambda>ob. hasOwnProperty ob key) ps
      in if \<not> keyExistsInAll then acc\<lparr>missing := Set_add key (missing acc)\<rparr>
         else
           (let values = map (\<lambda>ob. obj_get ob key) ps;
                hasValueDiff = (length values > 1 \<and> \<not> list_all (\<lambda>v. v = values ! 0) values)
            in if hasValueDiff then acc\<lparr>valueChanged := Set_add key (valueChanged acc)\<rparr>
               else acc))"

definition getDifferentParamKeys :: "obj list \<Rightarrow> ParamDiff" where
  "getDifferentParamKeys ps =
     (if \<not> canCompare ps \<or> allSame ps then \<lparr>missing = [], valueChanged = []\<rparr>
      else foldl (classify_key ps) \<lparr>missing = [], valueChanged = []\<rparr> (collect_keys ps))"

section \<open>The state kept in the query string\<close>

text \<open>
  A \<^verbatim>\<open>URLSearchParams\<close> object is its list of name-value pairs. \<^verbatim>\<open>get\<close> returns the value
  of the first pair with the name, or \<^verbatim>\<open>null\<close>; \<^verbatim>\<open>set\<close> rewrites the first pair with the
  name and removes the others, or appends a pair. The text form of the list that goes
  through \<^verbatim>\<open>window.location\<close> is the platform's and is not modelled.
\<close>

type_synonym URLSearchParams = "(string \<times> string) list"

definition usp_get :: "URLSearchParams \<Rightarrow> string \<Rightarrow> string option" where
  "usp_get q name = map_of q name"

fun usp_replace :: "string \<Rightarrow> string \<Rightarrow> URLSearchParams \<Rightarrow> URLSearchParams" where
  "usp_replace name v [] = []"
| "usp_replace name v (p # ps) =
     (if fst p = name then (name, v) # filter (\<lambda>r. fst r \<noteq> name) ps
      else p # usp_replace name v ps)"

definition usp_set :: "string \<Rightarrow> string \<Rightarrow> URLSearchParams \<Rightarrow> URLSearchParams" where
  "usp_set name v q = (if name \<in> set (map fst q) then usp_replace name v q else q @ [(name, v)])"

text \<open>The decimal text of a number, as a template literal prints it.\<close>

fun number_text :: "nat \<Rightarrow> string" where
  "number_text n =
     (if n < 10 then [char_of (48 + n)]
      else number_text (n div 10) @ [char_of (48 + n mod 10)])"

declare number_text.simps [simp del]

text \<open>\<^verbatim>\<open>notes[i]\<close>: \<^verbatim>\<open>undefined\<close> beyond the end of the array.\<close>

definition array_at :: "'a list \<Rightarrow> nat \<Rightarrow> 'a option" where
  "array_at xs i = (if i < length xs then Some (xs ! i) else None)"

text \<open>One round of the \<^verbatim>\<open>urls.forEach((url, i) => ...)\<close> of the effect that writes the query.\<close>

definition encode_step :: "string list \<Rightarrow> URLSearchParams \<Rightarrow> string \<times> nat \<Rightarrow> URLSearchParams" where
  "encode_step notes q ui =
     (let url = fst ui; i = snd ui;
          q1 = (if url \<noteq> [] then usp_set (''url'' @ number_text (i + 1)) url q else q)
      in case array_at notes i of
           None \<Rightarrow> q1
         | Some note \<Rightarrow>
             if note \<noteq> [] then usp_set (''note'' @ number_text (i + 1)) note q1 else q1)"

definition encode :: "string list \<Rightarrow> string list \<Rightarrow> URLSearchParams" where
  "encode urls notes = foldl (encode_step notes) [] (zip urls [0 ..< length urls])"

text \<open>\<^verbatim>\<open>.filter(Boolean)\<close> on the results of \<^verbatim>\<open>get\<close>: \<^verbatim>\<open>null\<close> and the empty string go.\<close>

fun filter_Boolean :: "string option list \<Rightarrow> string list" where
  "filter_Boolean [] = []"
| "filter_Boolean (None # xs) = filter_Boolean xs"
| "filter_Boolean (Some s # xs) = (if s = [] then filter_Boolean xs else s # filter_Boolean xs)"

definition getInitialUrls :: "URLSearchParams \<Rightarrow> string list" where
  "getInitialUrls q =
     (let urls = filter_Boolean [usp_get q ''url1'', usp_get q ''url2'', usp_get q ''url3'']
      in if length urls > 0 then urls else [[]])"

definition getInitialNotes :: "URLSearchParams \<Rightarrow> string list" where
  "getInitialNotes q =
     filter_Boolean [usp_get q ''note1'', usp_get q ''note2'', usp_get q ''note3'']"

text \<open>
  The effect that keeps \<^verbatim>\<open>notes\<close> as long as \<^verbatim>\<open>urls\<close>, as a function of the previous notes.
\<close>

definition syncNotes :: "nat \<Rightarrow> string list \<Rightarrow> string list" where
  "syncNotes n prev =
     (if length prev = n then prev
      else if length prev < n then prev @ replicate (n - length prev) []
      else take n prev)"

text \<open>
  The rows of the page: \<^verbatim>\<open>urls.map((url, i) => ...)\<close> shows \<^verbatim>\<open>url\<close> with \<^verbatim>\<open>notes[i] || ""\<close>.
  A slot is a pair of a url and a note.
\<close>

definition note_of :: "string list \<Rightarrow> nat \<Rightarrow> string" where
  "note_of notes i = (case array_at notes i of None \<Rightarrow> [] | Some n \<Rightarrow> n)"

definition slots :: "string list \<Rightarrow> string list \<Rightarrow> (string \<times> string) list" where
  "slots urls notes = map (\<lambda>i. (urls ! i, note_of notes i)) [0 ..< length urls]"

text \<open>
  Reading the state back: the initial values of the two \<^verbatim>\<open>useState\<close> hooks, as the rows
  they make.
\<close>

definition decode :: "URLSearchParams \<Rightarrow> (string \<times> string) list" where
  "decode q = slots (getInitialUrls q) (getInitialNotes q)"

text \<open>
  The query goes through the address of the page as text. The effect that writes it calls
  \<^verbatim>\<open>window.history.replaceState\<close> with \<^verbatim>\<open>pathname?params.toString()\<close>, and the page reads
  \<^verbatim>\<open>new URLSearchParams(window.location.search)\<close> when it starts. The text form of a
  \<^verbatim>\<open>URLSearchParams\<close> object and the constructor that parses it are the platform's.
  \<^verbatim>\<open>window.location.search\<close> is the text after the question mark with the question mark,
  and is empty when that text is empty.
\<close>

record query_text =
  usp_toString :: "URLSearchParams \<Rightarrow> string"
  usp_new :: "string \<Rightarrow> URLSearchParams"

definition location_search :: "string \<Rightarrow> string" where
  "location_search text = (if text = [] then [] else CHR ''?'' # text)"

definition write_query :: "query_text \<Rightarrow> string list \<Rightarrow> string list \<Rightarrow> string" where
  "write_query T urls notes = location_search (usp_toString T (encode urls notes))"

definition read_query :: "query_text \<Rightarrow> string \<Rightarrow> (string \<times> string) list" where
  "read_query T search = decode (usp_new T search)"

section \<open>Notions used to state the properties\<close>

text \<open>The value of the last entry with key \<open>k\<close> in a list of entries, if there is one.\<close>

definition last_value :: "string \<Rightarrow> (string \<times> string) list \<Rightarrow> string option" where
  "last_value k es = map_of (rev es) k"

text \<open>
  Writing a list of slots to the query and reading it back. A slot is a pair of a url and
  a note; the urls and the notes of the slots are the two arrays of the page.
\<close>

definition roundtrip :: "query_text \<Rightarrow> (string \<times> string) list \<Rightarrow> (string \<times> string) list" where
  "roundtrip T sl = read_query T (write_query T (map fst sl) (map snd sl))"

text \<open>
  The text form carries a query when the platform reads back from the text the pairs that
  were written. The browser does so for strings of Unicode scalar values; it writes a lone
  surrogate as U+FFFD.
\<close>

definition carried :: "query_text \<Rightarrow> URLSearchParams \<Rightarrow> bool" where
  "carried T q = (usp_new T (location_search (usp_toString T q)) = q)"

text \<open>
  The slots in which every note sits on a url and the notes come first: no slot has a note
  without a url, and among the slots with a url no slot with an empty note comes before a
  slot with a note.
\<close>

fun notes_first :: "string list \<Rightarrow> bool" where
  "notes_first [] = True"
| "notes_first (n # ns) = (if n = [] then list_all (\<lambda>m. m = []) ns else notes_first ns)"

definition url_slots :: "(string \<times> string) list \<Rightarrow> (string \<times> string) list" where
  "url_slots sl = filter (\<lambda>s. fst s \<noteq> []) sl"

definition aligned :: "(string \<times> string) list \<Rightarrow> bool" where
  "aligned sl =
     (list_all (\<lambda>s. if fst s = [] then snd s = [] else True) sl \<and>
      notes_first (map snd (url_slots sl)))"

text \<open>
  A text form for the examples: that of the browser on names and values made of letters
  and digits, which it writes as they are, joined by \<^verbatim>\<open>=\<close> and \<^verbatim>\<open>&\<close>, and reads by
  dropping a leading question mark, splitting at every \<^verbatim>\<open>&\<close>, skipping the empty pieces
  and splitting each piece at its first \<^verbatim>\<open>=\<close>.
\<close>

fun example_toString :: "URLSearchParams \<Rightarrow> string" where
  "example_toString [] = []"
| "example_toString [p] = fst p @ ''='' @ snd p"
| "example_toString (p # r # q) = fst p @ ''='' @ snd p @ ''&'' @ example_toString (r # q)"

fun split_on :: "char \<Rightarrow> string \<Rightarrow> string list" where
  "split_on c [] = [[]]"
| "split_on c (x # s) =
     (if x = c then [] # split_on c s
      else (case split_on c s of [] \<Rightarrow> [[x]] | w # ws \<Rightarrow> (x # w) # ws))"

definition example_pair :: "string \<Rightarrow> string \<times> string" where
  "example_pair s =
     (takeWhile (\<lambda>c. c \<noteq> CHR ''='') s, drop 1 (dropWhile (\<lambda>c. c \<noteq> CHR ''='') s))"

definition example_new :: "string \<Rightarrow> URLSearchParams" where
  "example_new init =
     map example_pair
       (filter (\<lambda>s. s \<noteq> [])
          (split_on CHR ''&''
             (case init of [] \<Rightarrow> [] | c # s \<Rightarrow> if c = CHR ''?'' then s else c # s)))"

definition example_query_text :: query_text where
  "example_query_text = \<lparr>usp_toString = example_toString, usp_new = example_new\<rparr>"

text \<open>
  A platform for the examples. Its constructor is the browser's on the four strings
  used below and throws on every other string; its comparator orders strings by their
  code units, as \<^verbatim>\<open>localeCompare\<close> orders the strings of lower-case letters and of digits
  that the examples use; analytics is disabled.
\<close>

fun compare_code_units :: "string \<Rightarrow> string \<Rightarrow> int" where
  "compare_code_units [] [] = 0"
| "compare_code_units [] (d # t) = - 1"
| "compare_code_units (c # s) [] = 1"
| "compare_code_units (c # s) (d # t) =
     (if (of_char c :: nat) < of_char d then - 1
      else if (of_char d :: nat) < of_char c then 1
      else compare_code_units s t)"

definition example_com :: "(string \<times> string) list \<Rightarrow> exn + URL_obj" where
  "example_com es =
     Inr \<lparr>url_protocol = ''https:'', url_host = ''example.com'', url_pathname = ''/'',
          url_searchParams = es\<rparr>"

definition example_URL :: "string \<Rightarrow> exn + URL_obj" where
  "example_URL s =
     (if s = ''https://example.com?b=2&a=1'' then example_com [(''b'', ''2''), (''a'', ''1'')]
      else if s = ''https://example.com?10=a&9=b'' then example_com [(''10'', ''a''), (''9'', ''b'')]
      else if s = ''https://example.com?__proto__=1&__proto__=2''
        then example_com [(''__proto__'', ''1''), (''__proto__'', ''2'')]
      else if s = ''https://example.com?k=1&j=0&k=2''
        then example_com [(''k'', ''1''), (''j'', ''0''), (''k'', ''2'')]
      else Inl TypeError)"

definition example_platform :: platform where
  "example_platform =
     \<lparr>analytics = None, URL_new = example_URL, localeCompare = compare_code_units\<rparr>"

definition sink_ok :: "string \<Rightarrow> exn + unit" where
  "sink_ok url = Inr ()"

definition sink_failing :: "string \<Rightarrow> exn + unit" where
  "sink_failing url = Inl SinkError"

section \<open>Properties of objects and of the sort\<close>

lemma map_of_obj_overwrite:
  "map_of (obj_overwrite k v ob) k' =
     (if k' = k \<and> k \<in> set (map fst ob) then Some v else map_of ob k')"
  by (induction ob) (force split: if_splits)+

lemma map_of_obj_insert_index:
  "k \<notin> set (map fst ob) \<Longrightarrow>
     map_of (obj_insert_index k v ob) k' = (if k' = k then Some v else map_of ob k')"
  by (induction ob) auto

lemma map_of_snoc:
  "k \<notin> set (map fst ob) \<Longrightarrow>
     map_of (ob @ [(k, v)]) k' = (if k' = k then Some v else map_of ob k')"
  by (induction ob) auto

lemma obj_get_obj_set:
  "k \<noteq> ''__proto__'' \<Longrightarrow>
     obj_get (obj_set k v ob) k' = (if k' = k then Some v else obj_get ob k')"
  unfolding obj_get_def obj_set_def hasOwnProperty_def Object_keys_def
  by (simp add: map_of_obj_overwrite map_of_obj_insert_index map_of_snoc del: map_of_append)

lemma obj_set_proto: "obj_set ''__proto__'' v ob = ob"
  by (simp add: obj_set_def)

lemma obj_get_fold_set:
  "k \<noteq> ''__proto__'' \<Longrightarrow>
   obj_get (foldl (\<lambda>ob e. obj_set (fst e) (snd e) ob) ob es) k =
     (case last_value k es of None \<Rightarrow> obj_get ob k | Some v \<Rightarrow> Some v)"
proof (induction es arbitrary: ob)
  case Nil
  then show ?case by (simp add: last_value_def)
next
  case (Cons e es)
  show ?case
  proof (cases "fst e = ''__proto__''")
    case True
    with Cons show ?thesis
      by (cases e) (auto simp: obj_set_proto last_value_def map_add_def split: option.splits)
  next
    case False
    with Cons show ?thesis
      by (cases e) (auto simp: obj_get_obj_set last_value_def map_add_def split: option.splits)
  qed
qed

lemma filter_insert_entry:
  "cmp k k \<le> 0 \<Longrightarrow>
   filter (\<lambda>p. fst p = k) (insert_entry cmp e es) =
     filter (\<lambda>p. fst p = k) (e # es)"
  by (induction es) auto

lemma sort_entries_stable:
  "cmp k k \<le> 0 \<Longrightarrow>
   filter (\<lambda>p. fst p = k) (sort_entries cmp es) = filter (\<lambda>p. fst p = k) es"
  unfolding sort_entries_def
  by (induction es) (simp_all add: filter_insert_entry)

lemma map_of_filter_key: "map_of (filter (\<lambda>p. fst p = k) es) k = map_of es k"
  by (induction es) auto

lemma last_value_filter: "last_value k es = last_value k (filter (\<lambda>p. fst p = k) es)"
  unfolding last_value_def
  by (metis map_of_filter_key rev_filter)

lemma last_value_sort_entries:
  "cmp k k \<le> 0 \<Longrightarrow> last_value k (sort_entries cmp es) = last_value k es"
  by (metis last_value_filter sort_entries_stable)

lemma obj_get_build_params:
  "k \<noteq> ''__proto__'' \<Longrightarrow> obj_get (build_params es) k = last_value k es"
proof -
  assume k: "k \<noteq> ''__proto__''"
  have "obj_get [] k = None" by (simp add: obj_get_def)
  with obj_get_fold_set [OF k, of "[]" es] show ?thesis
    by (simp add: build_params_def split: option.splits)
qed

section \<open>Properties of parseUrl\<close>

lemma parseUrl_cases:
  "parseUrl P url =
     (case log_parse_url P url of Inl e \<Rightarrow> None
      | Inr _ \<Rightarrow> (case URL_new P url of Inl e \<Rightarrow> None
          | Inr u \<Rightarrow> Some \<lparr>protocol = replace_colon (url_protocol u), host = url_host u,
                path = url_pathname u,
                params = build_params (sort_entries (localeCompare P) (url_searchParams u))\<rparr>))"
  by (simp add: parseUrl_def parseUrl_try_def split: sum.splits)

lemma is_array_index_10: "is_array_index ''10''"
  by (simp add: is_array_index_def is_digit_def digits_value_def)

lemma is_array_index_9: "is_array_index ''9''"
  by (simp add: is_array_index_def is_digit_def digits_value_def)

lemma build_params_index_keys:
  "build_params (sort_entries cmp [(''10'', a), (''9'', b)]) = [(''9'', b), (''10'', a)]"
  by (simp add: sort_entries_def build_params_def obj_set_def hasOwnProperty_def Object_keys_def
      is_array_index_10 is_array_index_9 digits_value_def)

lemma build_params_proto:
  "build_params (sort_entries cmp [(''__proto__'', a), (''__proto__'', b)]) = []"
  by (simp add: sort_entries_def build_params_def obj_set_proto)

text \<open>
  Every key of the query other than \<^verbatim>\<open>__proto__\<close> ends with the value of its last entry in
  the order of the query: the sort is stable, so it keeps the order of the entries of one
  key, and a later assignment overwrites an earlier one.
\<close>

lemma parseUrl_last_value_wins:
  assumes "parseUrl P url = Some r" and "URL_new P url = Inr u"
    and "localeCompare P k k \<le> 0" and "k \<noteq> ''__proto__''"
  shows "obj_get (params r) k = last_value k (url_searchParams u)"
proof -
  from assms(1,2) have "params r = build_params (sort_entries (localeCompare P) (url_searchParams u))"
    by (auto simp: parseUrl_cases split: sum.splits)
  then show ?thesis
    using assms(3,4) by (simp add: obj_get_build_params last_value_sort_entries)
qed

lemma parseUrl_repeated_key_example:
  "parseUrl example_platform ''https://example.com?k=1&j=0&k=2'' =
     Some \<lparr>protocol = ''https'', host = ''example.com'', path = ''/'',
           params = [(''j'', ''0''), (''k'', ''2'')]\<rparr>"
  by (simp add: parseUrl_cases example_platform_def example_URL_def example_com_def
      log_parse_url_def sort_entries_def build_params_def obj_set_def hasOwnProperty_def
      Object_keys_def is_array_index_def is_digit_def)

text \<open>
  Claim C3, that for every valid URL whose query repeats a key the params map keeps the
  last value of that key, at the query \<^verbatim>\<open>?__proto__=1&__proto__=2\<close>: whatever the
  comparator does, both assignments to \<^verbatim>\<open>params["__proto__"]\<close> are ignored, the params
  object stays empty, and the last value \<^verbatim>\<open>2\<close> of the repeated key is not in it.
\<close>

theorem parseUrl_proto_key_dropped:
  assumes "log_parse_url P url = Inr ()"
    and "URL_new P url = example_com [(''__proto__'', ''1''), (''__proto__'', ''2'')]"
  shows "parseUrl P url =
           Some \<lparr>protocol = ''https'', host = ''example.com'', path = ''/'', params = []\<rparr>
         \<and> last_value ''__proto__'' [(''__proto__'', ''1''), (''__proto__'', ''2'')] = Some ''2''
         \<and> obj_get [] ''__proto__'' = None"
  using assms by (simp add: parseUrl_cases example_com_def build_params_proto last_value_def obj_get_def)

theorem parseUrl_proto_key_dropped_witness:
  "parseUrl example_platform ''https://example.com?__proto__=1&__proto__=2'' =
     Some \<lparr>protocol = ''https'', host = ''example.com'', path = ''/'', params = []\<rparr>"
  using parseUrl_proto_key_dropped [of example_platform "''https://example.com?__proto__=1&__proto__=2''"]
  by (simp add: example_platform_def example_URL_def log_parse_url_def)

text \<open>
  Claim C4, as the code has it: a sink that returns leaves the result of parseUrl as it is
  without a sink, for every input; a sink that throws does so inside the \<^verbatim>\<open>try\<close> block,
  and parseUrl then returns \<^verbatim>\<open>null\<close>, for every input.
\<close>

theorem parseUrl_sink:
  "(sink url = Inr () \<longrightarrow>
      parseUrl (P\<lparr>analytics := Some sink\<rparr>) url = parseUrl (P\<lparr>analytics := None\<rparr>) url) \<and>
   (sink url = Inl e \<longrightarrow> parseUrl (P\<lparr>analytics := Some sink\<rparr>) url = None)"
  by (simp add: parseUrl_cases log_parse_url_def split: sum.splits)

theorem parseUrl_sink_witness:
  "sink_ok ''https://example.com?b=2&a=1'' = Inr () \<and>
   parseUrl (example_platform\<lparr>analytics := Some sink_ok\<rparr>) ''https://example.com?b=2&a=1''
     = parseUrl (example_platform\<lparr>analytics := None\<rparr>) ''https://example.com?b=2&a=1'' \<and>
   sink_failing ''https://example.com?b=2&a=1'' = Inl SinkError \<and>
   parseUrl (example_platform\<lparr>analytics := Some sink_failing\<rparr>) ''https://example.com?b=2&a=1''
     = None"
  using parseUrl_sink [where sink = sink_ok and url = "''https://example.com?b=2&a=1''"
      and P = example_platform]
    parseUrl_sink [where sink = sink_failing and url = "''https://example.com?b=2&a=1''"
      and e = SinkError and P = example_platform]
  by (simp add: sink_ok_def sink_failing_def)

text \<open>
  With a sink that throws, a valid URL is reported as a failure, while without a sink it
  is parsed: the result of parseUrl is not the same for every sink.
\<close>

theorem parseUrl_sink_counterexample:
  "parseUrl (example_platform\<lparr>analytics := Some sink_failing\<rparr>) ''https://example.com?b=2&a=1''
     \<noteq> parseUrl (example_platform\<lparr>analytics := None\<rparr>) ''https://example.com?b=2&a=1''"
  by (simp add: parseUrl_cases example_platform_def example_URL_def example_com_def
      log_parse_url_def sink_failing_def)

lemma set_insert_entry: "set (insert_entry cmp e es) = insert e (set es)"
  by (induction es) auto

lemma set_sort_entries: "set (sort_entries cmp es) = set es"
  unfolding sort_entries_def by (induction es) (simp_all add: set_insert_entry)

lemma sorted_insert_entry:
  assumes total: "\<And>a b. cmp a b \<le> 0 \<or> cmp b a \<le> 0"
    and trans: "\<And>a b c. cmp a b \<le> 0 \<Longrightarrow> cmp b c \<le> 0 \<Longrightarrow> cmp a c \<le> 0"
    and "sorted_wrt (\<lambda>a b. cmp a b \<le> 0) (map fst es)"
  shows "sorted_wrt (\<lambda>a b. cmp a b \<le> 0) (map fst (insert_entry cmp e es))"
  using assms(3)
proof (induction es)
  case Nil
  show ?case by simp
next
  case (Cons p ps)
  show ?case
  proof (cases "cmp (fst e) (fst p) \<le> 0")
    case True
    have "\<forall>x \<in> set ps. cmp (fst e) (fst x) \<le> 0"
    proof
      fix x assume "x \<in> set ps"
      with Cons.prems have "cmp (fst p) (fst x) \<le> 0" by auto
      with True show "cmp (fst e) (fst x) \<le> 0" by (rule trans)
    qed
    with True Cons.prems show ?thesis by auto
  next
    case False
    with total [of "fst e" "fst p"] have pe: "cmp (fst p) (fst e) \<le> 0" by simp
    from Cons have "sorted_wrt (\<lambda>a b. cmp a b \<le> 0) (map fst (insert_entry cmp e ps))"
      by simp
    with False pe Cons.prems show ?thesis
      by (auto simp: set_insert_entry)
  qed
qed

lemma sorted_sort_entries:
  assumes "\<And>a b. cmp a b \<le> 0 \<or> cmp b a \<le> 0"
    and "\<And>a b c. cmp a b \<le> 0 \<Longrightarrow> cmp b c \<le> 0 \<Longrightarrow> cmp a c \<le> 0"
  shows "sorted_wrt (\<lambda>a b. cmp a b \<le> 0) (map fst (sort_entries cmp es))"
  unfolding sort_entries_def
proof (induction es)
  case Nil
  show ?case by simp
next
  case (Cons e es)
  from sorted_insert_entry [OF assms Cons, where e = e] show ?case by simp
qed

lemma keys_obj_overwrite: "map fst (obj_overwrite k v ob) = map fst ob"
  by (induction ob) auto

lemma keys_obj_set_plain:
  "\<not> is_array_index k \<Longrightarrow> k \<noteq> ''__proto__'' \<Longrightarrow>
     Object_keys (obj_set k v ob) =
       (if k \<in> set (Object_keys ob) then Object_keys ob else Object_keys ob @ [k])"
  by (simp add: obj_set_def hasOwnProperty_def Object_keys_def keys_obj_overwrite)

lemma sorted_fold_obj_set:
  assumes "sorted_wrt R (map fst es)"
    and "sorted_wrt R (Object_keys ob)"
    and "\<forall>k \<in> set (Object_keys ob). \<forall>e \<in> set es. R k (fst e)"
    and "\<forall>e \<in> set es. \<not> is_array_index (fst e) \<and> fst e \<noteq> ''__proto__''"
  shows "sorted_wrt R (Object_keys (foldl (\<lambda>ob e. obj_set (fst e) (snd e) ob) ob es))"
  using assms
proof (induction es arbitrary: ob)
  case Nil
  then show ?case by simp
next
  case (Cons e es)
  let ?ob = "obj_set (fst e) (snd e) ob"
  from Cons.prems(4) have plain: "\<not> is_array_index (fst e)" "fst e \<noteq> ''__proto__''"
    by simp_all
  have keys: "Object_keys ?ob =
      (if fst e \<in> set (Object_keys ob) then Object_keys ob else Object_keys ob @ [fst e])"
    by (rule keys_obj_set_plain [OF plain])
  have s: "sorted_wrt R (Object_keys ?ob)"
    using Cons.prems(2,3) by (simp add: keys sorted_wrt_append)
  have b: "\<forall>k \<in> set (Object_keys ?ob). \<forall>x \<in> set es. R k (fst x)"
    using Cons.prems(1,3) by (auto simp: keys)
  from Cons.prems(1) have a: "sorted_wrt R (map fst es)" by simp
  from Cons.prems(4) have c: "\<forall>e \<in> set es. \<not> is_array_index (fst e) \<and> fst e \<noteq> ''__proto__''"
    by simp
  from Cons.IH [OF a s b c] show ?case by simp
qed

text \<open>
  When no key of the query is an array index or \<^verbatim>\<open>__proto__\<close>, and the comparator is a
  total preorder, the keys of params are listed in ascending order of the comparator.
\<close>

lemma parseUrl_keys_sorted:
  assumes "parseUrl P url = Some r" and "URL_new P url = Inr u"
    and total: "\<And>a b. localeCompare P a b \<le> 0 \<or> localeCompare P b a \<le> 0"
    and trans: "\<And>a b c. localeCompare P a b \<le> 0 \<Longrightarrow> localeCompare P b c \<le> 0
                  \<Longrightarrow> localeCompare P a c \<le> 0"
    and plain: "\<forall>e \<in> set (url_searchParams u). \<not> is_array_index (fst e) \<and> fst e \<noteq> ''__proto__''"
  shows "sorted_wrt (\<lambda>a b. localeCompare P a b \<le> 0) (Object_keys (params r))"
proof -
  let ?es = "sort_entries (localeCompare P) (url_searchParams u)"
  from assms(1,2) have r: "params r = build_params ?es"
    by (auto simp: parseUrl_cases split: sum.splits)
  have 1: "sorted_wrt (\<lambda>a b. localeCompare P a b \<le> 0) (map fst ?es)"
    by (rule sorted_sort_entries [OF total trans])
  have 2: "sorted_wrt (\<lambda>a b. localeCompare P a b \<le> 0) (Object_keys [])"
    by (simp add: Object_keys_def)
  have 3: "\<forall>k \<in> set (Object_keys []). \<forall>e \<in> set ?es. localeCompare P k (fst e) \<le> 0"
    by (simp add: Object_keys_def)
  from plain have 4: "\<forall>e \<in> set ?es. \<not> is_array_index (fst e) \<and> fst e \<noteq> ''__proto__''"
    by (simp add: set_sort_entries)
  from sorted_fold_obj_set [OF 1 2 3 4] show ?thesis
    by (simp add: r build_params_def)
qed

text \<open>The example of the specification, for a comparator that puts \<^verbatim>\<open>a\<close> before \<^verbatim>\<open>b\<close>.\<close>

lemma parseUrl_spec_example:
  assumes "log_parse_url P url = Inr ()"
    and "URL_new P url = example_com [(''b'', ''2''), (''a'', ''1'')]"
    and "localeCompare P ''b'' ''a'' > 0"
  shows "parseUrl P url =
           Some \<lparr>protocol = ''https'', host = ''example.com'', path = ''/'',
                 params = [(''a'', ''1''), (''b'', ''2'')]\<rparr>"
  using assms
  by (simp add: parseUrl_cases example_com_def sort_entries_def build_params_def obj_set_def
      hasOwnProperty_def Object_keys_def is_array_index_def is_digit_def)

text \<open>
  Claim C5, that the keys of params are in ascending lexicographic order for every valid
  URL, at the query \<^verbatim>\<open>?10=a&9=b\<close>: whatever the comparator does, the keys of the params
  object are listed as \<^verbatim>\<open>9\<close>, \<^verbatim>\<open>10\<close>, in numeric order, while \<^verbatim>\<open>10\<close> is before \<^verbatim>\<open>9\<close>
  lexicographically.
\<close>

theorem parseUrl_index_keys_reordered:
  assumes "log_parse_url P url = Inr ()"
    and "URL_new P url = example_com [(''10'', ''a''), (''9'', ''b'')]"
  shows "parseUrl P url =
           Some \<lparr>protocol = ''https'', host = ''example.com'', path = ''/'',
                 params = [(''9'', ''b''), (''10'', ''a'')]\<rparr>"
  using assms by (simp add: parseUrl_cases example_com_def build_params_index_keys)

theorem parseUrl_index_keys_reordered_witness:
  "parseUrl example_platform ''https://example.com?10=a&9=b'' =
           Some \<lparr>protocol = ''https'', host = ''example.com'', path = ''/'',
                 params = [(''9'', ''b''), (''10'', ''a'')]\<rparr>
   \<and> compare_code_units ''10'' ''9'' < 0"
  using parseUrl_index_keys_reordered [of example_platform "''https://example.com?10=a&9=b''"]
  by (simp add: example_platform_def example_URL_def log_parse_url_def)

text \<open>
  Claim C6: when the string cannot be parsed as an absolute URL, that is when the
  constructor throws, parseUrl returns \<^verbatim>\<open>null\<close>; and for every input either the body of
  the \<^verbatim>\<open>try\<close> completes and its ParsedURL is returned, or it throws and \<^verbatim>\<open>null\<close> is
  returned: no exception leaves parseUrl.
\<close>

theorem parseUrl_never_throws:
  "(URL_new P url = Inl e \<longrightarrow> parseUrl P url = None) \<and>
   ((\<exists>p. parseUrl_try P url = Inr p \<and> parseUrl P url = Some p) \<or>
    (\<exists>x. parseUrl_try P url = Inl x \<and> parseUrl P url = None))"
  by (auto simp: parseUrl_def parseUrl_try_def split: sum.splits)

theorem parseUrl_never_throws_witness:
  "URL_new example_platform ''not a url'' = Inl TypeError \<and>
   parseUrl example_platform ''not a url'' = None"
  using parseUrl_never_throws [where P = example_platform and url = "''not a url''"
      and e = TypeError]
  by (simp add: example_platform_def example_URL_def)

section \<open>Properties of the comparison\<close>

lemma set_fold_Set_add: "set (foldl (\<lambda>s key. Set_add key s) acc ks) = set acc \<union> set ks"
  by (induction ks arbitrary: acc) (auto simp: Set_add_def)

lemma set_collect_keys_from:
  "set (foldl (\<lambda>allKeys ob. foldl (\<lambda>s key. Set_add key s) allKeys (Object_keys ob)) acc ps)
     = set acc \<union> (\<Union>ob \<in> set ps. set (Object_keys ob))"
  by (induction ps arbitrary: acc) (auto simp: set_fold_Set_add)

lemma set_collect_keys: "set (collect_keys ps) = (\<Union>ob \<in> set ps. set (Object_keys ob))"
  by (simp add: collect_keys_def set_collect_keys_from)

lemma missing_classify_key:
  "set (missing (classify_key ps acc k)) =
     set (missing acc) \<union> (if list_all (\<lambda>ob. hasOwnProperty ob k) ps then {} else {k})"
  by (auto simp: classify_key_def Let_def Set_add_def)

lemma valueChanged_classify_key:
  "set (valueChanged (classify_key ps acc k)) =
     set (valueChanged acc) \<union>
       (if list_all (\<lambda>ob. hasOwnProperty ob k) ps \<and> length ps > 1 \<and>
           \<not> list_all (\<lambda>v. v = map (\<lambda>ob. obj_get ob k) ps ! 0) (map (\<lambda>ob. obj_get ob k) ps)
        then {k} else {})"
  by (auto simp: classify_key_def Let_def Set_add_def)

lemma missing_fold_classify:
  "set (missing (foldl (classify_key ps) acc ks)) =
     set (missing acc) \<union> {k \<in> set ks. \<not> list_all (\<lambda>ob. hasOwnProperty ob k) ps}"
  by (induction ks arbitrary: acc) (auto simp: missing_classify_key split: if_splits)

lemma valueChanged_fold_classify:
  "set (valueChanged (foldl (classify_key ps) acc ks)) =
     set (valueChanged acc) \<union>
       {k \<in> set ks. list_all (\<lambda>ob. hasOwnProperty ob k) ps \<and> length ps > 1 \<and>
           \<not> list_all (\<lambda>v. v = map (\<lambda>ob. obj_get ob k) ps ! 0) (map (\<lambda>ob. obj_get ob k) ps)}"
  by (induction ks arbitrary: acc) (auto simp: valueChanged_classify_key split: if_splits)

lemma paramsEqual_iff:
  assumes "distinct (Object_keys a)" and "distinct (Object_keys b)"
  shows "paramsEqual a b \<longleftrightarrow> map_of a = map_of b"
proof
  assume eq: "paramsEqual a b"
  then have len: "length a = length b"
    and vals: "\<And>k. k \<in> fst ` set a \<Longrightarrow> map_of b k = map_of a k"
    by (auto simp: paramsEqual_def Object_keys_def obj_get_def list_all_iff split: if_splits)
  have sub: "fst ` set a \<subseteq> fst ` set b"
  proof
    fix k assume k: "k \<in> fst ` set a"
    then obtain v where "map_of a k = Some v"
      by (metis domD dom_map_of_conv_image_fst)
    with vals [OF k] have "map_of b k = Some v" by simp
    then show "k \<in> fst ` set b"
      by (metis domI dom_map_of_conv_image_fst)
  qed
  have "card (fst ` set a) = length a" "card (fst ` set b) = length b"
    using assms distinct_card [of "map fst a"] distinct_card [of "map fst b"]
    by (simp_all add: Object_keys_def)
  with len sub have keys: "fst ` set a = fst ` set b"
    by (simp add: card_subset_eq)
  show "map_of a = map_of b"
  proof
    fix k
    show "map_of a k = map_of b k"
    proof (cases "k \<in> fst ` set a")
      case True
      then show ?thesis using vals by simp
    next
      case False
      with keys have "map_of a k = None" "map_of b k = None"
        by (simp_all add: map_of_eq_None_iff)
      then show ?thesis by simp
    qed
  qed
next
  assume eq: "map_of a = map_of b"
  then have "dom (map_of a) = dom (map_of b)" by simp
  then have "fst ` set a = fst ` set b"
    by (simp add: dom_map_of_conv_image_fst)
  then have "card (set (map fst a)) = card (set (map fst b))" by simp
  with assms distinct_card [of "map fst a"] distinct_card [of "map fst b"]
  have "length a = length b"
    by (simp add: Object_keys_def)
  with eq show "paramsEqual a b"
    by (simp add: paramsEqual_def Object_keys_def obj_get_def list_all_iff)
qed

lemma allSame_map_of:
  assumes "length ps \<ge> 2" and "\<forall>ob \<in> set ps. distinct (Object_keys ob)"
  shows "allSame ps \<longleftrightarrow> (\<forall>a \<in> set ps. \<forall>b \<in> set ps. map_of a = map_of b)"
proof -
  from assms(1) have first: "ps ! 0 \<in> set ps" by (cases ps) auto
  have "allSame ps \<longleftrightarrow> (\<forall>p \<in> set ps. map_of p = map_of (ps ! 0))"
    using assms first by (simp add: allSame_def canCompare_def list_all_iff paramsEqual_iff)
  also have "\<dots> \<longleftrightarrow> (\<forall>a \<in> set ps. \<forall>b \<in> set ps. map_of a = map_of b)"
    using first by metis
  finally show ?thesis .
qed

lemma hasOwnProperty_map_of: "hasOwnProperty ob k \<longleftrightarrow> map_of ob k \<noteq> None"
  by (simp add: hasOwnProperty_def Object_keys_def map_of_eq_None_iff)

lemma value_diff_iff:
  assumes "ps \<noteq> []"
  shows "(\<not> list_all (\<lambda>v. v = map f ps ! 0) (map f ps)) \<longleftrightarrow>
           (\<exists>a \<in> set ps. \<exists>b \<in> set ps. f a \<noteq> f b)"
proof -
  from assms have first: "ps ! 0 \<in> set ps" and "map f ps ! 0 = f (ps ! 0)"
    by (cases ps; simp)+
  then have "(\<not> list_all (\<lambda>v. v = map f ps ! 0) (map f ps)) \<longleftrightarrow> (\<exists>a \<in> set ps. f a \<noteq> f (ps ! 0))"
    by (simp add: list_all_iff)
  also have "\<dots> \<longleftrightarrow> (\<exists>a \<in> set ps. \<exists>b \<in> set ps. f a \<noteq> f b)"
    using first by metis
  finally show ?thesis .
qed

lemma missing_getDifferentParamKeys:
  "set (missing (getDifferentParamKeys ps)) =
     (if \<not> canCompare ps \<or> allSame ps then {}
      else {k \<in> set (collect_keys ps). \<not> list_all (\<lambda>ob. hasOwnProperty ob k) ps})"
  by (simp add: getDifferentParamKeys_def missing_fold_classify)

lemma valueChanged_getDifferentParamKeys:
  "set (valueChanged (getDifferentParamKeys ps)) =
     (if \<not> canCompare ps \<or> allSame ps then {}
      else {k \<in> set (collect_keys ps). list_all (\<lambda>ob. hasOwnProperty ob k) ps \<and> length ps > 1 \<and>
           \<not> list_all (\<lambda>v. v = map (\<lambda>ob. obj_get ob k) ps ! 0) (map (\<lambda>ob. obj_get ob k) ps)})"
  by (simp add: getDifferentParamKeys_def valueChanged_fold_classify)

text \<open>
  Claim C10: for every sequence of maps, no key is both in the missing set and in the
  valueChanged set that getDifferentParamKeys returns.
\<close>

theorem missing_valueChanged_disjoint:
  "set (missing (getDifferentParamKeys ps)) \<inter> set (valueChanged (getDifferentParamKeys ps)) = {}"
  by (auto simp: missing_getDifferentParamKeys valueChanged_getDifferentParamKeys split: if_splits)

lemma missing_iff_not_allSame:
  assumes "length ps \<ge> 2" and "\<not> allSame ps" and "k \<in> set (collect_keys ps)"
  shows "k \<in> set (missing (getDifferentParamKeys ps)) \<longleftrightarrow>
           (\<exists>ob \<in> set ps. \<not> hasOwnProperty ob k)"
proof -
  from assms(1) have can: "canCompare ps" by (simp add: canCompare_def)
  with assms(2) have "set (missing (getDifferentParamKeys ps)) =
          {k \<in> set (collect_keys ps). \<not> list_all (\<lambda>ob. hasOwnProperty ob k) ps}"
    by (simp add: missing_getDifferentParamKeys)
  with assms(3) show ?thesis by (simp add: list_all_iff)
qed

lemma valueChanged_iff_not_allSame:
  assumes "length ps \<ge> 2" and "\<not> allSame ps" and "k \<in> set (collect_keys ps)"
  shows "k \<in> set (valueChanged (getDifferentParamKeys ps)) \<longleftrightarrow>
           (\<forall>ob \<in> set ps. hasOwnProperty ob k) \<and>
           (\<exists>a \<in> set ps. \<exists>b \<in> set ps. obj_get a k \<noteq> obj_get b k)"
proof -
  from assms(1) have can: "canCompare ps" and ne: "ps \<noteq> []" and len: "length ps > 1"
    by (auto simp: canCompare_def)
  have A: "list_all (\<lambda>ob. hasOwnProperty ob k) ps \<longleftrightarrow> (\<forall>ob \<in> set ps. hasOwnProperty ob k)"
    by (simp add: list_all_iff)
  have D: "(\<not> list_all (\<lambda>v. v = map (\<lambda>ob. obj_get ob k) ps ! 0) (map (\<lambda>ob. obj_get ob k) ps))
             \<longleftrightarrow> (\<exists>a \<in> set ps. \<exists>b \<in> set ps. obj_get a k \<noteq> obj_get b k)"
    by (rule value_diff_iff [where f = "\<lambda>ob. obj_get ob k", OF ne])
  from can assms(2) have "set (valueChanged (getDifferentParamKeys ps)) =
          {k \<in> set (collect_keys ps). list_all (\<lambda>ob. hasOwnProperty ob k) ps \<and> length ps > 1 \<and>
            \<not> list_all (\<lambda>v. v = map (\<lambda>ob. obj_get ob k) ps ! 0) (map (\<lambda>ob. obj_get ob k) ps)}"
    by (simp add: valueChanged_getDifferentParamKeys)
  then have "k \<in> set (valueChanged (getDifferentParamKeys ps)) \<longleftrightarrow>
          list_all (\<lambda>ob. hasOwnProperty ob k) ps \<and>
            \<not> list_all (\<lambda>v. v = map (\<lambda>ob. obj_get ob k) ps ! 0) (map (\<lambda>ob. obj_get ob k) ps)"
    using assms(3) len by simp
  then show ?thesis unfolding A D .
qed

lemma allSame_no_difference:
  assumes "length ps \<ge> 2" and "\<forall>ob \<in> set ps. distinct (Object_keys ob)" and "allSame ps"
    and "k \<in> (\<Union>ob \<in> set ps. set (Object_keys ob))"
  shows "(\<forall>ob \<in> set ps. hasOwnProperty ob k) \<and>
         \<not> (\<exists>a \<in> set ps. \<exists>b \<in> set ps. obj_get a k \<noteq> obj_get b k)"
proof -
  from allSame_map_of [OF assms(1,2)] assms(3)
  have same: "\<forall>a \<in> set ps. \<forall>b \<in> set ps. map_of a = map_of b"
    by (rule iffD1)
  from assms(4) obtain ob where ob: "ob \<in> set ps" "hasOwnProperty ob k"
    by (auto simp: hasOwnProperty_def)
  have all: "\<forall>p \<in> set ps. hasOwnProperty p k"
  proof
    fix p assume "p \<in> set ps"
    with same ob(1) have "map_of p = map_of ob" by blast
    with ob(2) show "hasOwnProperty p k" by (simp add: hasOwnProperty_map_of)
  qed
  have "\<not> (\<exists>a \<in> set ps. \<exists>b \<in> set ps. obj_get a k \<noteq> obj_get b k)"
  proof
    assume "\<exists>a \<in> set ps. \<exists>b \<in> set ps. obj_get a k \<noteq> obj_get b k"
    then obtain a b where ab: "a \<in> set ps" "b \<in> set ps" "obj_get a k \<noteq> obj_get b k"
      by blast
    from same ab(1,2) have "map_of a = map_of b" by blast
    with ab(3) show False by (simp add: obj_get_def)
  qed
  with all show ?thesis by (rule conjI)
qed

lemma allSame_empty_result:
  "allSame ps \<Longrightarrow> getDifferentParamKeys ps = \<lparr>missing = [], valueChanged = []\<rparr>"
  by (simp add: getDifferentParamKeys_def)

text \<open>
  Claim C7: for every sequence of at least two maps and every key \<open>k\<close> of the union of
  their keys, \<open>k\<close> is in missing exactly when some map lacks it; \<open>k\<close> is in valueChanged
  exactly when every map has it and two of the maps give it different values; and a key
  that every map has with one and the same value is in neither set.
\<close>

theorem getDifferentParamKeys_classifies:
  assumes "length ps \<ge> 2" and "\<forall>ob \<in> set ps. distinct (Object_keys ob)"
    and "k \<in> (\<Union>ob \<in> set ps. set (Object_keys ob))"
  shows "(k \<in> set (missing (getDifferentParamKeys ps)) \<longleftrightarrow>
            (\<exists>ob \<in> set ps. \<not> hasOwnProperty ob k)) \<and>
         (k \<in> set (valueChanged (getDifferentParamKeys ps)) \<longleftrightarrow>
            (\<forall>ob \<in> set ps. hasOwnProperty ob k) \<and>
            (\<exists>a \<in> set ps. \<exists>b \<in> set ps. obj_get a k \<noteq> obj_get b k)) \<and>
         ((\<forall>ob \<in> set ps. hasOwnProperty ob k) \<and>
          (\<forall>a \<in> set ps. \<forall>b \<in> set ps. obj_get a k = obj_get b k) \<longrightarrow>
            k \<notin> set (missing (getDifferentParamKeys ps)) \<and>
            k \<notin> set (valueChanged (getDifferentParamKeys ps)))"
proof -
  let ?m = "k \<in> set (missing (getDifferentParamKeys ps))"
  let ?v = "k \<in> set (valueChanged (getDifferentParamKeys ps))"
  let ?all = "\<forall>ob \<in> set ps. hasOwnProperty ob k"
  let ?diff = "\<exists>a \<in> set ps. \<exists>b \<in> set ps. obj_get a k \<noteq> obj_get b k"
  from assms(3) have kin: "k \<in> set (collect_keys ps)"
    by (simp add: set_collect_keys)
  have mv: "(?m \<longleftrightarrow> \<not> ?all) \<and> (?v \<longleftrightarrow> ?all \<and> ?diff)"
  proof (cases "allSame ps")
    case True
    from allSame_no_difference [OF assms(1,2) True assms(3)]
    have "?all" and "\<not> ?diff" by blast+
    moreover from True have "\<not> ?m" and "\<not> ?v"
      by (simp_all add: allSame_empty_result)
    ultimately show ?thesis by blast
  next
    case False
    from missing_iff_not_allSame [OF assms(1) False kin]
      valueChanged_iff_not_allSame [OF assms(1) False kin]
    show ?thesis by blast
  qed
  then show ?thesis by blast
qed

lemma map_of_eq_iff:
  "map_of a = map_of b \<longleftrightarrow>
      set (Object_keys a) = set (Object_keys b) \<and>
      (\<forall>k \<in> set (Object_keys a). obj_get a k = obj_get b k)"
proof
  assume eq: "map_of a = map_of b"
  then have "dom (map_of a) = dom (map_of b)" by simp
  then have "set (Object_keys a) = set (Object_keys b)"
    by (simp add: dom_map_of_conv_image_fst Object_keys_def)
  with eq show "set (Object_keys a) = set (Object_keys b) \<and>
      (\<forall>k \<in> set (Object_keys a). obj_get a k = obj_get b k)"
    by (simp add: obj_get_def)
next
  assume r: "set (Object_keys a) = set (Object_keys b) \<and>
      (\<forall>k \<in> set (Object_keys a). obj_get a k = obj_get b k)"
  show "map_of a = map_of b"
  proof
    fix k
    show "map_of a k = map_of b k"
    proof (cases "k \<in> set (Object_keys a)")
      case True
      with r show ?thesis by (simp add: obj_get_def)
    next
      case False
      with r have "map_of a k = None" "map_of b k = None"
        by (simp_all add: Object_keys_def map_of_eq_None_iff)
      then show ?thesis by simp
    qed
  qed
qed

lemma paramsEqual_unfold:
  "paramsEqual a b \<longleftrightarrow>
     length (Object_keys a) = length (Object_keys b) \<and>
     (\<forall>k \<in> set (Object_keys a). obj_get b k = obj_get a k)"
  by (simp add: paramsEqual_def Let_def list_all_iff)

lemma allSame_unfold:
  assumes "length ps \<ge> 2"
  shows "allSame ps \<longleftrightarrow>
           (\<forall>p \<in> set ps.
               length (Object_keys p) = length (Object_keys (hd ps)) \<and>
               (\<forall>k \<in> set (Object_keys p). obj_get (hd ps) k = obj_get p k))"
proof -
  from assms have can: "canCompare ps" by (simp add: canCompare_def)
  from assms have "ps \<noteq> []" by auto
  then have hd: "ps ! 0 = hd ps" by (simp add: hd_conv_nth)
  have "allSame ps \<longleftrightarrow> list_all (\<lambda>p. paramsEqual p (ps ! 0)) ps"
    using can by (simp add: allSame_def)
  then have "allSame ps \<longleftrightarrow> (\<forall>p \<in> set ps. paramsEqual p (hd ps))"
    unfolding hd list_all_iff .
  then show ?thesis unfolding paramsEqual_unfold .
qed

text \<open>
  Claim C8: for every sequence of at least two maps, allSame holds exactly when any two of
  the maps have the same keys and the same value under each key; and it holds exactly
  when every map has as many keys as the first one and each of its keys has the same value
  in the first map.
\<close>

theorem allSame_iff:
  assumes "length ps \<ge> 2" and "\<forall>ob \<in> set ps. distinct (Object_keys ob)"
  shows "(allSame ps \<longleftrightarrow>
            (\<forall>a \<in> set ps. \<forall>b \<in> set ps.
               set (Object_keys a) = set (Object_keys b) \<and>
               (\<forall>k \<in> set (Object_keys a). obj_get a k = obj_get b k))) \<and>
         (allSame ps \<longleftrightarrow>
            (\<forall>p \<in> set ps.
               length (Object_keys p) = length (Object_keys (hd ps)) \<and>
               (\<forall>k \<in> set (Object_keys p). obj_get (hd ps) k = obj_get p k)))"
proof
  show "allSame ps \<longleftrightarrow>
            (\<forall>a \<in> set ps. \<forall>b \<in> set ps.
               set (Object_keys a) = set (Object_keys b) \<and>
               (\<forall>k \<in> set (Object_keys a). obj_get a k = obj_get b k))"
    using allSame_map_of [OF assms] unfolding map_of_eq_iff .
  show "allSame ps \<longleftrightarrow>
            (\<forall>p \<in> set ps.
               length (Object_keys p) = length (Object_keys (hd ps)) \<and>
               (\<forall>k \<in> set (Object_keys p). obj_get (hd ps) k = obj_get p k))"
    by (rule allSame_unfold [OF assms(1)])
qed

theorem allSame_iff_witness:
  "2 \<le> length [[(''a'', ''1'')], [(''a'', ''2'')]] \<and>
   list_all (\<lambda>ob. distinct (Object_keys ob)) [[(''a'', ''1'')], [(''a'', ''2'')]] \<and>
   \<not> allSame [[(''a'', ''1'')], [(''a'', ''2'')]]"
proof -
  let ?ps = "[[(''a'', ''1'')], [(''a'', ''2'')]]"
  have h1: "2 \<le> length ?ps" by simp
  have h2: "\<forall>ob \<in> set ?ps. distinct (Object_keys ob)" by (simp add: Object_keys_def)
  have d: "\<not> (\<forall>p \<in> set ?ps.
               length (Object_keys p) = length (Object_keys (hd ?ps)) \<and>
               (\<forall>k \<in> set (Object_keys p). obj_get (hd ?ps) k = obj_get p k))"
    by (simp add: Object_keys_def obj_get_def)
  from allSame_iff [OF h1 h2] d have "\<not> allSame ?ps" by blast
  with h1 h2 show ?thesis by (simp add: list_all_iff)
qed

theorem getDifferentParamKeys_classifies_witness:
  "2 \<le> length [[(''a'', ''1''), (''b'', ''2'')], [(''a'', ''1'')]] \<and>
   list_all (\<lambda>ob. distinct (Object_keys ob)) [[(''a'', ''1''), (''b'', ''2'')], [(''a'', ''1'')]] \<and>
   ''b'' \<in> set (Object_keys [(''a'', ''1''), (''b'', ''2'')]) \<and>
   ''b'' \<in> set (missing (getDifferentParamKeys [[(''a'', ''1''), (''b'', ''2'')], [(''a'', ''1'')]])) \<and>
   ''b'' \<notin> set (valueChanged (getDifferentParamKeys [[(''a'', ''1''), (''b'', ''2'')], [(''a'', ''1'')]]))"
proof -
  let ?ps = "[[(''a'', ''1''), (''b'', ''2'')], [(''a'', ''1'')]]"
  have h1: "2 \<le> length ?ps" by simp
  have h2: "\<forall>ob \<in> set ?ps. distinct (Object_keys ob)" by (simp add: Object_keys_def)
  have k: "''b'' \<in> set (Object_keys [(''a'', ''1''), (''b'', ''2'')])"
    by (simp add: Object_keys_def)
  then have h3: "''b'' \<in> (\<Union>ob \<in> set ?ps. set (Object_keys ob))" by simp
  have h4: "\<exists>ob \<in> set ?ps. \<not> hasOwnProperty ob ''b''"
    by (simp add: hasOwnProperty_def Object_keys_def)
  note c = getDifferentParamKeys_classifies [OF h1 h2 h3]
  from c h4 have m: "''b'' \<in> set (missing (getDifferentParamKeys ?ps))" by blast
  from c h4 have v: "''b'' \<notin> set (valueChanged (getDifferentParamKeys ?ps))" by blast
  from h1 h2 k m v show ?thesis by (simp add: list_all_iff)
qed

lemma getDifferentParamKeys_example:
  "getDifferentParamKeys [[(''a'', ''1''), (''b'', ''2'')], [(''a'', ''2'')]] =
     \<lparr>missing = [''b''], valueChanged = [''a'']\<rparr>"
  by (simp add: getDifferentParamKeys_def canCompare_def allSame_def paramsEqual_def
      Object_keys_def obj_get_def collect_keys_def Set_add_def classify_key_def hasOwnProperty_def)

theorem missing_valueChanged_disjoint_witness:
  "set (missing (getDifferentParamKeys [[(''a'', ''1''), (''b'', ''2'')], [(''a'', ''2'')]])) \<inter>
   set (valueChanged (getDifferentParamKeys [[(''a'', ''1''), (''b'', ''2'')], [(''a'', ''2'')]])) = {}"
  by (rule missing_valueChanged_disjoint)

section \<open>Properties of the state kept in the query string\<close>

lemma number_text_1: "number_text (Suc 0) = ''1''"
  by code_simp

lemma number_text_2: "number_text (Suc (Suc 0)) = ''2''"
  by code_simp

lemma number_text_3: "number_text (Suc (Suc (Suc 0))) = ''3''"
  by code_simp

lemma map_of_filter_other:
  "k' \<noteq> k \<Longrightarrow> map_of (filter (\<lambda>r. fst r \<noteq> k) q) k' = map_of q k'"
  by (induction q) auto

lemma map_of_usp_replace:
  "map_of (usp_replace k v q) k' =
     (if k' = k then (case map_of q k of None \<Rightarrow> None | Some w \<Rightarrow> Some v) else map_of q k')"
  by (induction q) (auto simp: map_of_filter_other)

lemma usp_get_usp_set:
  "usp_get (usp_set k v q) k' = (if k' = k then Some v else usp_get q k')"
proof (cases "k \<in> set (map fst q)")
  case True
  then obtain w where "map_of q k = Some w"
    by (metis domD dom_map_of_conv_image_fst set_map)
  with True show ?thesis
    by (simp add: usp_get_def usp_set_def map_of_usp_replace)
next
  case False
  then show ?thesis
    by (simp add: usp_get_def usp_set_def map_of_snoc del: map_of_append)
qed

lemma usp_get_if_set:
  "usp_get (if c then usp_set k v q else q) k' = (if c \<and> k' = k then Some v else usp_get q k')"
  by (simp add: usp_get_usp_set)

lemma usp_get_empty: "usp_get [] k = None"
  by (simp add: usp_get_def)

lemmas encode_simps = encode_def encode_step_def array_at_def Let_def
  number_text_1 number_text_2 number_text_3 usp_get_if_set usp_get_usp_set usp_get_empty

lemma encode_urls_1:
  "getInitialUrls (encode [u1] [n1]) = (if u1 = [] then [[]] else [u1])"
  by (simp add: getInitialUrls_def encode_simps)

lemma encode_urls_2:
  "getInitialUrls (encode [u1, u2] [n1, n2]) =
     (if filter (\<lambda>u. u \<noteq> []) [u1, u2] = [] then [[]] else filter (\<lambda>u. u \<noteq> []) [u1, u2])"
  by (simp add: getInitialUrls_def encode_simps)

lemma encode_urls_3:
  "getInitialUrls (encode [u1, u2, u3] [n1, n2, n3]) =
     (if filter (\<lambda>u. u \<noteq> []) [u1, u2, u3] = [] then [[]]
      else filter (\<lambda>u. u \<noteq> []) [u1, u2, u3])"
  by (simp add: getInitialUrls_def encode_simps)

lemma encode_notes_1:
  "getInitialNotes (encode [u1] [n1]) = filter (\<lambda>n. n \<noteq> []) [n1]"
  by (simp add: getInitialNotes_def encode_simps)

lemma encode_notes_2:
  "getInitialNotes (encode [u1, u2] [n1, n2]) = filter (\<lambda>n. n \<noteq> []) [n1, n2]"
  by (simp add: getInitialNotes_def encode_simps)

lemma encode_notes_3:
  "getInitialNotes (encode [u1, u2, u3] [n1, n2, n3]) = filter (\<lambda>n. n \<noteq> []) [n1, n2, n3]"
  by (simp add: getInitialNotes_def encode_simps)

lemma short_list_cases:
  assumes "1 \<le> length sl" and "length sl \<le> 3"
  obtains a where "sl = [a]" | a b where "sl = [a, b]" | a b c where "sl = [a, b, c]"
proof (cases sl)
  case Nil
  with assms show ?thesis by simp
next
  case (Cons a r1)
  note c1 = this
  show ?thesis
  proof (cases r1)
    case Nil
    with c1 that show ?thesis by simp
  next
    case (Cons b r2)
    note c2 = this
    show ?thesis
    proof (cases r2)
      case Nil
      with c1 c2 that show ?thesis by simp
    next
      case (Cons c r3)
      with c1 c2 assms have "r3 = []" by simp
      with Cons c1 c2 that show ?thesis by simp
    qed
  qed
qed

lemma getInitialUrls_encode:
  assumes "1 \<le> length sl" and "length sl \<le> 3"
  shows "getInitialUrls (encode (map fst sl) (map snd sl)) =
     (if filter (\<lambda>u. u \<noteq> []) (map fst sl) = [] then [[]]
      else filter (\<lambda>u. u \<noteq> []) (map fst sl))"
  using assms
proof (cases sl rule: short_list_cases)
  case (1 a)
  then show ?thesis using encode_urls_1 [of "fst a" "snd a"] by simp
next
  case (2 a b)
  then show ?thesis using encode_urls_2 [of "fst a" "fst b" "snd a" "snd b"] by simp
next
  case (3 a b c)
  then show ?thesis
    using encode_urls_3 [of "fst a" "fst b" "fst c" "snd a" "snd b" "snd c"] by simp
qed

lemma map_fst_slots: "map fst (slots urls notes) = urls"
  by (simp add: slots_def comp_def map_nth)

lemma length_slots: "length (slots urls notes) = length urls"
  by (simp add: slots_def)

text \<open>A note makes no slot: there are as many slots as urls read.\<close>

lemma decode_length: "length (decode q) = length (getInitialUrls q)"
  by (simp add: decode_def length_slots)

text \<open>The effect that cuts or pads the notes to the length of the urls keeps the rows.\<close>

lemma slots_syncNotes: "slots urls (syncNotes (length urls) notes) = slots urls notes"
  by (auto simp: slots_def syncNotes_def note_of_def array_at_def nth_append)

lemma roundtrip_carried:
  "carried T (encode (map fst sl) (map snd sl)) \<Longrightarrow>
     roundtrip T sl = decode (encode (map fst sl) (map snd sl))"
  by (simp add: roundtrip_def read_query_def write_query_def carried_def)

lemmas rows_simps = aligned_def url_slots_def slots_def note_of_def array_at_def decode_def

lemma aligned_rows_1:
  "aligned [(u1, n1)] \<Longrightarrow> url_slots (decode (encode [u1] [n1])) = url_slots [(u1, n1)]"
  by (simp add: encode_urls_1 encode_notes_1 rows_simps split: if_splits)

lemma aligned_rows_2:
  "aligned [(u1, n1), (u2, n2)] \<Longrightarrow>
     url_slots (decode (encode [u1, u2] [n1, n2])) = url_slots [(u1, n1), (u2, n2)]"
  by (simp add: encode_urls_2 encode_notes_2 rows_simps split: if_splits)

lemma aligned_rows_3:
  "aligned [(u1, n1), (u2, n2), (u3, n3)] \<Longrightarrow>
     url_slots (decode (encode [u1, u2, u3] [n1, n2, n3])) =
       url_slots [(u1, n1), (u2, n2), (u3, n3)]"
  by (simp add: encode_urls_3 encode_notes_3 rows_simps split: if_splits)

lemma aligned_rows:
  assumes "1 \<le> length sl" and "length sl \<le> 3" and "aligned sl"
  shows "url_slots (decode (encode (map fst sl) (map snd sl))) = url_slots sl"
  using assms(1,2)
proof (cases sl rule: short_list_cases)
  case (1 a)
  with assms(3) aligned_rows_1 [of "fst a" "snd a"] show ?thesis by simp
next
  case (2 a b)
  with assms(3) aligned_rows_2 [of "fst a" "snd a" "fst b" "snd b"] show ?thesis by simp
next
  case (3 a b c)
  with assms(3) aligned_rows_3 [of "fst a" "snd a" "fst b" "snd b" "fst c" "snd c"]
  show ?thesis by simp
qed

text \<open>
  Claim C1, as the code has it by design: for every list of one to three slots whose query
  the text form carries, reading back what was written gives the non-empty urls of the
  slots in their order, hence as many url-bearing slots. When no slot has a note without
  a url and, among the slots with a url, no slot with an empty note comes before a slot
  with a note, every slot with a url is read back with its own note, in the same order.
  Nothing is said of the note of a slot without a url, nor of the notes elsewhere.
\<close>

theorem roundtrip_preserves:
  assumes "1 \<le> length sl" and "length sl \<le> 3"
    and "carried T (encode (map fst sl) (map snd sl))"
  shows "filter (\<lambda>u. u \<noteq> []) (map fst (roundtrip T sl)) = filter (\<lambda>u. u \<noteq> []) (map fst sl) \<and>
         length (url_slots (roundtrip T sl)) = length (url_slots sl) \<and>
         (aligned sl \<longrightarrow> url_slots (roundtrip T sl) = url_slots sl)"
proof -
  let ?q = "encode (map fst sl) (map snd sl)"
  have out: "roundtrip T sl = decode ?q"
    by (rule roundtrip_carried [OF assms(3)])
  have urls: "map fst (roundtrip T sl) = getInitialUrls ?q"
    by (simp add: out decode_def map_fst_slots)
  have u: "filter (\<lambda>u. u \<noteq> []) (map fst (roundtrip T sl)) = filter (\<lambda>u. u \<noteq> []) (map fst sl)"
    by (simp add: urls getInitialUrls_encode [OF assms(1,2)])
  have "length (filter (\<lambda>u. u \<noteq> []) (map fst (roundtrip T sl))) =
        length (filter (\<lambda>u. u \<noteq> []) (map fst sl))"
    using u by simp
  then have c: "length (url_slots (roundtrip T sl)) = length (url_slots sl)"
    by (simp add: url_slots_def filter_map comp_def)
  have a: "aligned sl \<longrightarrow> url_slots (roundtrip T sl) = url_slots sl"
    unfolding out using aligned_rows [OF assms(1,2)] by (rule impI)
  from u c a show ?thesis by (intro conjI)
qed

lemma example_query:
  "encode [''u'', []] [''n1'', ''n2''] = [(''url1'', ''u''), (''note1'', ''n1''), (''note2'', ''n2'')]"
  by (simp add: encode_def encode_step_def array_at_def Let_def usp_set_def
      number_text_1 number_text_2)

lemma example_carried:
  "carried example_query_text [(''url1'', ''u''), (''note1'', ''n1''), (''note2'', ''n2'')]"
  by (simp add: carried_def example_query_text_def location_search_def example_new_def
      example_pair_def)

lemma roundtrip_example:
  "roundtrip example_query_text [(''u'', ''n1''), ([], ''n2'')] = [(''u'', ''n1'')]"
proof -
  have "carried example_query_text (encode (map fst [(''u'', ''n1''), ([], ''n2'')])
          (map snd [(''u'', ''n1''), ([], ''n2'')]))"
    using example_carried by (simp add: example_query)
  then have "roundtrip example_query_text [(''u'', ''n1''), ([], ''n2'')] =
      decode (encode (map fst [(''u'', ''n1''), ([], ''n2'')]) (map snd [(''u'', ''n1''), ([], ''n2'')]))"
    by (rule roundtrip_carried)
  then show ?thesis
    by (simp add: example_query decode_def slots_def note_of_def array_at_def
        getInitialUrls_def getInitialNotes_def usp_get_def)
qed

text \<open>
  Two slots, the second with a note and no url, written to the address and read back: one
  slot is read, and the note of the second slot is not among the notes read.
\<close>

theorem roundtrip_note_dropped:
  "filter (\<lambda>n. n \<noteq> []) (map snd (roundtrip example_query_text [(''u'', ''n1''), ([], ''n2'')]))
     \<noteq> filter (\<lambda>n. n \<noteq> []) (map snd [(''u'', ''n1''), ([], ''n2'')])"
  by (simp add: roundtrip_example)

lemma example_query_aligned:
  "encode [''a'', ''b''] [''n'', []] = [(''url1'', ''a''), (''note1'', ''n''), (''url2'', ''b'')]"
  by (simp add: encode_def encode_step_def array_at_def Let_def usp_set_def
      number_text_1 number_text_2)

lemma example_carried_aligned:
  "carried example_query_text [(''url1'', ''a''), (''note1'', ''n''), (''url2'', ''b'')]"
  by (simp add: carried_def example_query_text_def location_search_def example_new_def
      example_pair_def)

theorem roundtrip_preserves_witness:
  "1 \<le> length [(''a'', ''n''), (''b'', [])] \<and> length [(''a'', ''n''), (''b'', [])] \<le> 3 \<and>
   carried example_query_text (encode (map fst [(''a'', ''n''), (''b'', [])])
     (map snd [(''a'', ''n''), (''b'', [])])) \<and>
   aligned [(''a'', ''n''), (''b'', [])] \<and>
   url_slots (roundtrip example_query_text [(''a'', ''n''), (''b'', [])]) =
     [(''a'', ''n''), (''b'', [])]"
proof -
  let ?sl = "[(''a'', ''n''), (''b'', [])]"
  have h1: "1 \<le> length ?sl" and h2: "length ?sl \<le> 3" by simp_all
  have h3: "carried example_query_text (encode (map fst ?sl) (map snd ?sl))"
    using example_carried_aligned by (simp add: example_query_aligned)
  have h4: "aligned ?sl" by (simp add: aligned_def url_slots_def)
  from roundtrip_preserves [OF h1 h2 h3] h4
  have "url_slots (roundtrip example_query_text ?sl) = url_slots ?sl" by blast
  then have "url_slots (roundtrip example_query_text ?sl) = ?sl"
    by (simp add: url_slots_def)
  with h1 h2 h3 h4 show ?thesis by (intro conjI)
qed

text \<open>
  Claim C9: when the query has none of the keys \<^verbatim>\<open>url1\<close>, \<^verbatim>\<open>url2\<close>, \<^verbatim>\<open>url3\<close>, as the empty
  query, decode yields exactly one slot, and its url is empty.
\<close>

theorem decode_default_slot:
  assumes "usp_get q ''url1'' = None" and "usp_get q ''url2'' = None"
    and "usp_get q ''url3'' = None"
  shows "getInitialUrls q = [[]] \<and> length (decode q) = 1 \<and> map fst (decode q) = [[]]"
  using assms by (simp add: getInitialUrls_def decode_def slots_def)

theorem decode_default_slot_witness:
  "usp_get [] ''url1'' = None \<and> usp_get [] ''url2'' = None \<and> usp_get [] ''url3'' = None \<and>
   getInitialUrls [] = [[]] \<and> length (decode []) = 1 \<and> map fst (decode []) = [[]]"
  using decode_default_slot [of "[]"]
  by (simp add: usp_get_def)

lemma decode_misaligned_query:
  "encode [''a'', ''b''] [[], ''n''] = [(''url1'', ''a''), (''url2'', ''b''), (''note2'', ''n'')]"
  by (simp add: encode_def encode_step_def array_at_def Let_def usp_set_def
      number_text_1 number_text_2)

text \<open>
  Claim C2, that the note paired with a slot is the one whose index is that of the url
  key of the slot, at the query \<^verbatim>\<open>url1=a&url2=b&note2=n\<close>, which is what is written for the
  slots \<^verbatim>\<open>(a, "")\<close> and \<^verbatim>\<open>(b, n)\<close>: the note of \<^verbatim>\<open>note2\<close> is paired with the slot of
  \<^verbatim>\<open>url1\<close>, and the slot of \<^verbatim>\<open>url2\<close> has an empty note.
\<close>

theorem decode_note_misaligned:
  "decode [(''url1'', ''a''), (''url2'', ''b''), (''note2'', ''n'')] = [(''a'', ''n''), (''b'', [])]"
  by (simp add: decode_def slots_def note_of_def array_at_def getInitialUrls_def
      getInitialNotes_def usp_get_def)

end
